theory Spec2Isabelle
  imports Complex_Main
begin

section \<open>Decoded JSON values\<close>

text \<open>
  What \<^verbatim>\<open>json.load\<close> returns: \<^verbatim>\<open>None\<close>, a bool, an int (unbounded), a float, a
  str, a list or a dict. A dict is kept as its item list in insertion order and read with
  \<open>map_of\<close>. A float is modelled by its rational value (the non-finite floats that
  \<^verbatim>\<open>json.load\<close> accepts beyond JSON are not modelled).
\<close>

datatype json =
    JNull
  | JBool bool
  | JInt int
  | JFloat rat
  | JStr string
  | JArr "json list"
  | JObj "(string \<times> json) list"

text \<open>Python's truth value of a decoded value, as \<^verbatim>\<open>if x:\<close> and \<^verbatim>\<open>not x\<close> read it.\<close>

fun truthy :: "json \<Rightarrow> bool" where
  "truthy JNull = False"
| "truthy (JBool b) = b"
| "truthy (JInt i) = (i \<noteq> 0)"
| "truthy (JFloat r) = (r \<noteq> 0)"
| "truthy (JStr s) = (s \<noteq> [])"
| "truthy (JArr xs) = (xs \<noteq> [])"
| "truthy (JObj fs) = (fs \<noteq> [])"

text \<open>\<^verbatim>\<open>key in d\<close> and \<^verbatim>\<open>d.get(key, default)\<close> on a dict.\<close>

definition has_key :: "('k \<times> 'v) list \<Rightarrow> 'k \<Rightarrow> bool" where
  "has_key d k = (map_of d k \<noteq> None)"

definition dict_get :: "('k \<times> 'v) list \<Rightarrow> 'k \<Rightarrow> 'v \<Rightarrow> 'v" where
  "dict_get d k dflt = (case map_of d k of Some v \<Rightarrow> v | None \<Rightarrow> dflt)"

section \<open>Schema validation\<close>

text \<open>
  The keywords of JSON Schema that \<^verbatim>\<open>study_schema\<close> uses, with the meaning
  \<^verbatim>\<open>jsonschema.validate\<close> gives them: \<^verbatim>\<open>type\<close> (a name or a list of names; the
  empty list stands for an absent keyword), \<^verbatim>\<open>properties\<close>, \<^verbatim>\<open>items\<close>,
  \<^verbatim>\<open>required\<close>, \<^verbatim>\<open>oneOf\<close> (empty for absent), \<^verbatim>\<open>patternProperties\<close> and a
  boolean \<^verbatim>\<open>additionalProperties\<close> (\<open>True\<close> when absent). A bool is neither an
  integer nor a number; a float with an integral value is an integer.
\<close>

datatype jtype = T_object | T_array | T_string | T_integer | T_number | T_null | T_boolean

fun is_type :: "jtype \<Rightarrow> json \<Rightarrow> bool" where
  "is_type T_object v = (case v of JObj _ \<Rightarrow> True | _ \<Rightarrow> False)"
| "is_type T_array v = (case v of JArr _ \<Rightarrow> True | _ \<Rightarrow> False)"
| "is_type T_string v = (case v of JStr _ \<Rightarrow> True | _ \<Rightarrow> False)"
| "is_type T_integer v =
     (case v of JInt _ \<Rightarrow> True | JFloat r \<Rightarrow> r = of_int \<lfloor>r\<rfloor> | _ \<Rightarrow> False)"
| "is_type T_number v = (case v of JInt _ \<Rightarrow> True | JFloat _ \<Rightarrow> True | _ \<Rightarrow> False)"
| "is_type T_null v = (v = JNull)"
| "is_type T_boolean v = (case v of JBool _ \<Rightarrow> True | _ \<Rightarrow> False)"

text \<open>
  The only pattern of the schema is \<^verbatim>\<open>".*"\<close>; \<^verbatim>\<open>re.search\<close> finds it in every
  key (it matches the empty string).
\<close>

datatype pattern = Any_key

fun re_search :: "pattern \<Rightarrow> string \<Rightarrow> bool" where
  "re_search Any_key k = True"

datatype schema = Schema
  (s_type: "jtype list")
  (s_properties: "(string \<times> schema) list")
  (s_items: "schema option")
  (s_required: "string list")
  (s_oneOf: "schema list")
  (s_patternProperties: "(pattern \<times> schema) list")
  (s_additionalProperties: bool)

text \<open>
  \<open>valid s v\<close>: \<^verbatim>\<open>validate(instance=v, schema=s)\<close> raises no
  \<^verbatim>\<open>ValidationError\<close>. The text of the error is the library's and is not modelled.
\<close>

fun valid :: "schema \<Rightarrow> json \<Rightarrow> bool" where
  "valid (Schema ts props items req one pats addl) v =
    ((ts = [] \<or> list_ex (\<lambda>t. is_type t v) ts) \<and>
     (case v of
        JObj fs \<Rightarrow>
          list_all (\<lambda>(k, sub). case map_of fs k of None \<Rightarrow> True | Some x \<Rightarrow> valid sub x) props \<and>
          list_all (\<lambda>(p, sub). list_all (\<lambda>(k, x). if re_search p k then valid sub x else True) fs) pats \<and>
          (addl \<or> list_all (\<lambda>(k, x). has_key props k \<or> list_ex (\<lambda>(p, sub). re_search p k) pats) fs) \<and>
          list_all (has_key fs) req
      | _ \<Rightarrow> True) \<and>
     (case v of
        JArr xs \<Rightarrow> (case items of None \<Rightarrow> True | Some sub \<Rightarrow> list_all (valid sub) xs)
      | _ \<Rightarrow> True) \<and>
     (one = [] \<or> length (filter (\<lambda>s. valid s v) one) = 1))"

text \<open>Shorthands for the shapes the schema repeats.\<close>

definition of_type :: "jtype list \<Rightarrow> schema" where
  "of_type ts = Schema ts [] None [] [] [] True"

definition array_of :: "schema \<Rightarrow> schema" where
  "array_of sub = Schema [T_array] [] (Some sub) [] [] [] True"

definition object_of :: "(string \<times> schema) list \<Rightarrow> string list \<Rightarrow> schema" where
  "object_of props req = Schema [T_object] props None req [] [] True"

definition affiliation_schema :: schema where
  "affiliation_schema =
     object_of
       [(''institution'', of_type [T_string]),
        (''country'', of_type [T_string])]
       [''institution'', ''country'']"

definition author_schema :: schema where
  "author_schema =
     object_of
       [(''name'', of_type [T_string]),
        (''affiliations'', array_of affiliation_schema)]
       [''name'']"

definition dataset_schema :: schema where
  "dataset_schema =
     object_of
       [(''name'', of_type [T_string]),
        (''size'', of_type [T_integer, T_string, T_null]),
        (''pd_patients'', of_type [T_integer, T_null]),
        (''controls'', of_type [T_integer, T_null]),
        (''url'', of_type [T_string, T_null]),
        (''doi'', of_type [T_string, T_null])]
       [''name'']"

definition feature_selection_schema :: schema where
  "feature_selection_schema =
     Schema [] [] None []
       [of_type [T_null],
        object_of
          [(''methods'', array_of (of_type [T_string])),
           (''combination'', of_type [T_string])]
          [''methods'']]
       [] True"

definition results_schema :: schema where
  "results_schema =
     Schema [T_object] [] None [] []
       [(Any_key, of_type [T_number, T_string, T_null])]
       False"

definition ml_approach_schema :: schema where
  "ml_approach_schema =
     object_of
       [(''algorithm'', of_type [T_string]),
        (''framework'', of_type [T_string, T_null]),
        (''feature_extraction'', array_of (of_type [T_string])),
        (''feature_selection'', feature_selection_schema),
        (''missing_value_handling'', array_of (of_type [T_string])),
        (''outlier_handling'', array_of (of_type [T_string])),
        (''imbalance_handling'', array_of (of_type [T_string])),
        (''scaling'', array_of (of_type [T_string])),
        (''dimensionality_reduction'', array_of (of_type [T_string])),
        (''sample_selection'', array_of (of_type [T_string])),
        (''input_speech'', of_type [T_string]),
        (''validation'', of_type [T_string, T_null]),
        (''results'', results_schema)]
       [''algorithm'', ''results'']"

definition study_schema :: schema where
  "study_schema =
     object_of
       [(''study_id'', of_type [T_string]),
        (''title'', of_type [T_string]),
        (''authors'', array_of author_schema),
        (''ml_problem_type'', array_of (of_type [T_string])),
        (''problem'', of_type [T_string]),
        (''publication_type'', of_type [T_string]),
        (''journal'', of_type [T_string]),
        (''year'', of_type [T_integer, T_string]),
        (''doi'', of_type [T_string]),
        (''abstract'', of_type [T_string]),
        (''source_dataset'', array_of dataset_schema),
        (''target_dataset'', array_of dataset_schema),
        (''ml_approaches'', array_of ml_approach_schema)]
       [''study_id'', ''title'', ''authors'', ''publication_type'', ''journal'', ''year'',
        ''doi'', ''ml_approaches'']"

definition validate :: "json \<Rightarrow> bool" where
  "validate data = valid study_schema data"

section \<open>The collection\<close>

text \<open>
  The pipeline reaches the store through \<^verbatim>\<open>find_one\<close> and \<^verbatim>\<open>insert_one\<close>
  only. The collection is modelled by its documents in insertion order, each the item
  list of a dict together with a number the store gave it, and by the log of the filters
  that \<^verbatim>\<open>find_one\<close> was called with, so that "no lookup" is a property of the
  state. A document that came with an \<^verbatim>\<open>_id\<close> of its own keeps it among its items;
  for any other the store makes a fresh \<^verbatim>\<open>_id\<close>, which the number stands for (the
  duplicate report names a stored document by this number).
\<close>

datatype cond = Equals json | In_list "json list" | Exists bool

type_synonym query = "(string \<times> cond) list"

record collection =
  docs :: "(nat \<times> (string \<times> json) list) list"
  lookups :: "query list"

text \<open>
  An exception, with the name of its type and its message. The faults of the store that
  do not come from the stored documents (a lost connection, a value the store cannot
  encode) are given to each file's pass: the fault, if any, that \<^verbatim>\<open>find_one\<close> and
  \<^verbatim>\<open>insert_one\<close> raise during it.
\<close>

datatype fault = Fault (fault_type: string) (fault_message: string)

text \<open>
  The filters the pipeline builds have three shapes: a field equal to a value, a field
  with \<^verbatim>\<open>$in\<close> and a field with \<^verbatim>\<open>$exists\<close>. Their meaning follows MongoDB's: a
  dotted path descends into embedded documents and, one level deep, into the documents of
  an array; a value matches a field that equals it or that is an array holding it;
  numbers compare by value whatever their type; \<^verbatim>\<open>null\<close> also matches a path that
  resolves to nothing or that some document on the way lacks (\<open>path_lacking\<close>).
\<close>

fun split_dots :: "string \<Rightarrow> string list" where
  "split_dots [] = [[]]"
| "split_dots (c # cs) =
     (if c = CHR ''.'' then [] # split_dots cs
      else (case split_dots cs of [] \<Rightarrow> [[c]] | w # ws \<Rightarrow> (c # w) # ws))"

definition field_of :: "string \<Rightarrow> json \<Rightarrow> json list" where
  "field_of k v = (case v of JObj fs \<Rightarrow> (case map_of fs k of Some x \<Rightarrow> [x] | None \<Rightarrow> []) | _ \<Rightarrow> [])"

definition children :: "string \<Rightarrow> json \<Rightarrow> json list" where
  "children k v = (case v of JArr xs \<Rightarrow> concat (map (field_of k) xs) | _ \<Rightarrow> field_of k v)"

fun path_values :: "string list \<Rightarrow> json \<Rightarrow> json list" where
  "path_values [] v = [v]"
| "path_values (k # ks) v = concat (map (path_values ks) (children k v))"

primrec canon :: "json \<Rightarrow> json" where
  "canon JNull = JNull"
| "canon (JBool b) = JBool b"
| "canon (JInt i) = JInt i"
| "canon (JFloat r) = (if r = of_int \<lfloor>r\<rfloor> then JInt \<lfloor>r\<rfloor> else JFloat r)"
| "canon (JStr s) = JStr s"
| "canon (JArr xs) = JArr (map canon xs)"
| "canon (JObj fs) = JObj (map (map_prod id canon) fs)"

definition same_value :: "json \<Rightarrow> json \<Rightarrow> bool" where
  "same_value a b = (canon a = canon b)"

definition value_matches :: "json \<Rightarrow> json \<Rightarrow> bool" where
  "value_matches v x =
     (same_value x v \<or> (case x of JArr ys \<Rightarrow> list_ex (\<lambda>y. same_value y v) ys | _ \<Rightarrow> False))"

definition lacks_field :: "string \<Rightarrow> json \<Rightarrow> bool" where
  "lacks_field k v = (case v of JObj fs \<Rightarrow> map_of fs k = None | _ \<Rightarrow> False)"

fun path_lacking :: "string list \<Rightarrow> json \<Rightarrow> bool" where
  "path_lacking [] v = False"
| "path_lacking (k # ks) v =
     ((case v of JArr xs \<Rightarrow> list_ex (lacks_field k) xs | _ \<Rightarrow> lacks_field k v) \<or>
      list_ex (path_lacking ks) (children k v))"

definition equals_holds :: "json \<Rightarrow> json list \<Rightarrow> bool \<Rightarrow> bool" where
  "equals_holds v found lacking =
     (list_ex (value_matches v) found \<or> (v = JNull \<and> (found = [] \<or> lacking)))"

fun cond_holds :: "cond \<Rightarrow> json list \<Rightarrow> bool \<Rightarrow> bool" where
  "cond_holds (Equals v) found lacking = equals_holds v found lacking"
| "cond_holds (In_list vs) found lacking = list_ex (\<lambda>v. equals_holds v found lacking) vs"
| "cond_holds (Exists b) found lacking = ((found \<noteq> []) = b)"

definition matches :: "query \<Rightarrow> json \<Rightarrow> bool" where
  "matches q d =
     list_all
       (\<lambda>(path, c).
          cond_holds c (path_values (split_dots path) d) (path_lacking (split_dots path) d))
       q"

definition find_one ::
  "fault option \<Rightarrow> query \<Rightarrow> collection
     \<Rightarrow> (fault + (nat \<times> (string \<times> json) list) option) \<times> collection" where
  "find_one flt q c =
     (let c' = c\<lparr>lookups := lookups c @ [q]\<rparr> in
      case flt of
        Some e \<Rightarrow> (Inl e, c')
      | None \<Rightarrow> (Inr (find (\<lambda>(i, d). matches q (JObj d)) (docs c)), c'))"

text \<open>
  \<^verbatim>\<open>_id\<close> is unique in a collection: \<open>holds_id ds x\<close> tells whether a stored
  document already has the \<^verbatim>\<open>_id\<close> \<open>x\<close>.
\<close>

definition holds_id :: "(nat \<times> (string \<times> json) list) list \<Rightarrow> json \<Rightarrow> bool" where
  "holds_id ds x =
     list_ex (\<lambda>(i, d). case map_of d ''_id'' of Some y \<Rightarrow> same_value y x | None \<Rightarrow> False) ds"

text \<open>
  \<^verbatim>\<open>insert_one\<close> refuses what is not a dict before it reaches the store, and the
  store refuses a document whose own \<^verbatim>\<open>_id\<close> it already holds
  (\<^verbatim>\<open>DuplicateKeyError\<close>).
\<close>

definition insert_one :: "fault option \<Rightarrow> json \<Rightarrow> collection \<Rightarrow> fault + collection" where
  "insert_one flt data c =
     (case data of
        JObj d \<Rightarrow>
          (case flt of
             Some e \<Rightarrow> Inl e
           | None \<Rightarrow>
               (case map_of d ''_id'' of
                  Some x \<Rightarrow>
                    if holds_id (docs c) x
                    then Inl (Fault ''DuplicateKeyError'' ''E11000 duplicate key error'')
                    else Inr (c\<lparr>docs := docs c @ [(length (docs c), d)]\<rparr>)
                | None \<Rightarrow> Inr (c\<lparr>docs := docs c @ [(length (docs c), d)]\<rparr>)))
      | _ \<Rightarrow> Inl (Fault ''TypeError'' ''document must be an instance of dict''))"

section \<open>The import pipeline\<close>

text \<open>
  One entry of the walk over the folder: the directory and the file name that
  \<^verbatim>\<open>os.walk\<close> yields, what opening and decoding the file gives, and the faults of
  the store while this file is processed.
\<close>

datatype load_result =
    Open_fails fault
  | Decode_fails string nat nat
  | Load_fails fault
  | Loaded json

record file_event =
  root_dir :: string
  filename :: string
  content :: load_result
  find_fault :: "fault option"
  insert_fault :: "fault option"

record duplicate_entry =
  dup_file :: string
  dup_reason :: string
  dup_value :: json
  dup_existing_id :: nat

record load_error_entry =
  err_file :: string
  err_type :: string
  err_message :: string
  err_position :: "(nat \<times> nat) option"

text \<open>
  The local variables of \<^verbatim>\<open>import_json_studies\<close> that the loop updates. An entry of
  the validation report is kept as its file path (its error text is the library's).
\<close>

record import_state =
  coll :: collection
  count_inserted :: nat
  count_skipped :: nat
  count_invalid :: nat
  count_load_errors :: nat
  duplicate_report :: "duplicate_entry list"
  validation_report :: "string list"
  load_error_report :: "load_error_entry list"

definition ends_with :: "string \<Rightarrow> string \<Rightarrow> bool" where
  "ends_with s suffix =
     (length suffix \<le> length s \<and> drop (length s - length suffix) s = suffix)"

definition os_path_join :: "string \<Rightarrow> string \<Rightarrow> string" where
  "os_path_join a b =
     (case b of
        c # cs \<Rightarrow>
          if c = CHR ''/'' then b
          else if a = [] \<or> ends_with a ''/'' then a @ b
          else a @ ''/'' @ b
      | [] \<Rightarrow> if a = [] \<or> ends_with a ''/'' then a else a @ ''/'')"

definition dict_items :: "json \<Rightarrow> (string \<times> json) list" where
  "dict_items v = (case v of JObj fs \<Rightarrow> fs | _ \<Rightarrow> [])"

text \<open>
  \<^verbatim>\<open>[d.get("name", "") for d in data["dataset"] if isinstance(d, dict)]\<close>, or the
  empty list when \<^verbatim>\<open>data\<close> has no list under \<^verbatim>\<open>"dataset"\<close>.
\<close>

definition dataset_names :: "(string \<times> json) list \<Rightarrow> json list" where
  "dataset_names data =
     (case map_of data ''dataset'' of
        Some (JArr ds) \<Rightarrow>
          concat (map (\<lambda>d. case d of JObj fs \<Rightarrow> [dict_get fs ''name'' (JStr [])] | _ \<Rightarrow> []) ds)
      | _ \<Rightarrow> [])"

definition dataset_clause :: "json list \<Rightarrow> cond" where
  "dataset_clause names = (if names \<noteq> [] then In_list names else Exists True)"

text \<open>
  The filter of each branch. \<open>dict_get data k JNull\<close> stands for \<^verbatim>\<open>data[k]\<close> and is
  only read where the key is present.
\<close>

definition basic_query :: "(string \<times> json) list \<Rightarrow> query" where
  "basic_query data =
     (if has_key data ''doi'' \<and> truthy (dict_get data ''doi'' JNull)
        then [(''doi'', Equals (dict_get data ''doi'' JNull))]
      else if has_key data ''title''
        then [(''title'', Equals (dict_get data ''title'' JNull))]
      else [])"

definition enhanced_query :: "(string \<times> json) list \<Rightarrow> query" where
  "enhanced_query data =
     (if has_key data ''doi'' \<and> truthy (dict_get data ''doi'' JNull)
        then [(''doi'', Equals (dict_get data ''doi'' JNull)),
              (''dataset.name'', dataset_clause (dataset_names data))]
      else if has_key data ''title''
        then [(''title'', Equals (dict_get data ''title'' JNull)),
              (''dataset.name'', dataset_clause (dataset_names data))]
      else [])"

definition build_query :: "json \<Rightarrow> (string \<times> json) list \<Rightarrow> query \<times> string" where
  "build_query skip_duplicate_check data =
     (if skip_duplicate_check = JStr ''basic''
        then (basic_query data,
              if has_key (basic_query data) ''doi'' then ''doi'' else ''title'')
      else (enhanced_query data,
            if has_key (enhanced_query data) ''doi'' then ''doi+dataset'' else ''title+dataset''))"

text \<open>
  The block under \<^verbatim>\<open>if not skip_duplicate_check:\<close>. The result is \<open>Inl\<close> when the
  lookup raises, and otherwise tells whether the loop \<^verbatim>\<open>continue\<close>s (a duplicate was
  found and reported). A document that \<^verbatim>\<open>find_one\<close> returns is a dict with its
  identifier, hence true.
\<close>

definition duplicate_check ::
  "json \<Rightarrow> string \<Rightarrow> (string \<times> json) list \<Rightarrow> fault option \<Rightarrow> import_state
     \<Rightarrow> (fault \<times> import_state) + (bool \<times> import_state)" where
  "duplicate_check skip_duplicate_check file_path data flt st =
     (if \<not> truthy skip_duplicate_check then
        (case build_query skip_duplicate_check data of
           (query, reason_text) \<Rightarrow>
             if query \<noteq> [] then
               (case find_one flt query (coll st) of
                  (Inl e, c) \<Rightarrow> Inl (e, st\<lparr>coll := c\<rparr>)
                | (Inr None, c) \<Rightarrow> Inr (False, st\<lparr>coll := c\<rparr>)
                | (Inr (Some existing), c) \<Rightarrow>
                    Inr (True,
                      st\<lparr>coll := c,
                         duplicate_report := duplicate_report st @
                           [\<lparr>dup_file = file_path,
                             dup_reason = reason_text,
                             dup_value = dict_get data ''doi'' (dict_get data ''title'' (JStr ''unknown'')),
                             dup_existing_id = fst existing\<rparr>],
                         count_skipped := count_skipped st + 1\<rparr>))
             else Inr (False, st))
      else Inr (False, st))"

definition unexpected_error :: "string \<Rightarrow> fault \<Rightarrow> import_state \<Rightarrow> import_state" where
  "unexpected_error file_path e st =
     st\<lparr>load_error_report := load_error_report st @
           [\<lparr>err_file = file_path, err_type = fault_type e, err_message = fault_message e,
             err_position = None\<rparr>],
        count_load_errors := count_load_errors st + 1\<rparr>"

definition decode_error :: "string \<Rightarrow> string \<Rightarrow> nat \<Rightarrow> nat \<Rightarrow> import_state \<Rightarrow> import_state" where
  "decode_error file_path msg lineno colno st =
     st\<lparr>load_error_report := load_error_report st @
           [\<lparr>err_file = file_path, err_type = ''JSON Decode Error'', err_message = msg,
             err_position = Some (lineno, colno)\<rparr>],
        count_load_errors := count_load_errors st + 1\<rparr>"

text \<open>
  The body of the loop for one \<^verbatim>\<open>.json\<close> file. \<^verbatim>\<open>open\<close> stands outside the
  \<^verbatim>\<open>try\<close>, so its exception leaves the function (\<open>Inl\<close>); everything raised after
  it is caught by one of the two handlers.
\<close>

definition process_file :: "json \<Rightarrow> file_event \<Rightarrow> import_state \<Rightarrow> fault + import_state" where
  "process_file skip_duplicate_check f st =
     (let file_path = os_path_join (root_dir f) (filename f) in
      case content f of
        Open_fails e \<Rightarrow> Inl e
      | Decode_fails msg lineno colno \<Rightarrow> Inr (decode_error file_path msg lineno colno st)
      | Load_fails e \<Rightarrow> Inr (unexpected_error file_path e st)
      | Loaded data \<Rightarrow>
          if \<not> validate data then
            Inr (st\<lparr>validation_report := validation_report st @ [file_path],
                    count_invalid := count_invalid st + 1\<rparr>)
          else
            (case duplicate_check skip_duplicate_check file_path (dict_items data) (find_fault f) st of
               Inl (e, st1) \<Rightarrow> Inr (unexpected_error file_path e st1)
             | Inr (True, st1) \<Rightarrow> Inr st1
             | Inr (False, st1) \<Rightarrow>
                 (case insert_one (insert_fault f) data (coll st1) of
                    Inl e \<Rightarrow> Inr (unexpected_error file_path e st1)
                  | Inr c \<Rightarrow> Inr (st1\<lparr>coll := c, count_inserted := count_inserted st1 + 1\<rparr>))))"

fun import_loop :: "json \<Rightarrow> file_event list \<Rightarrow> import_state \<Rightarrow> fault + import_state" where
  "import_loop skip_duplicate_check [] st = Inr st"
| "import_loop skip_duplicate_check (f # fs) st =
     (if ends_with (filename f) ''.json'' then
        (case process_file skip_duplicate_check f st of
           Inl e \<Rightarrow> Inl e
         | Inr st' \<Rightarrow> import_loop skip_duplicate_check fs st')
      else import_loop skip_duplicate_check fs st)"

text \<open>The three reports, each written only when its list is not empty.\<close>

datatype report =
    Duplicate_report "duplicate_entry list"
  | Validation_report "string list"
  | Load_error_report "load_error_entry list"

definition save_reports :: "import_state \<Rightarrow> (string \<times> report) list" where
  "save_reports st =
     (if duplicate_report st \<noteq> [] then
        [(''duplicate_report.json'', Duplicate_report (duplicate_report st))] else []) @
     (if validation_report st \<noteq> [] then
        [(''validation_report.json'', Validation_report (validation_report st))] else []) @
     (if load_error_report st \<noteq> [] then
        [(''load_error_report.json'', Load_error_report (load_error_report st))] else [])"

text \<open>
  The answer to the menu (already stripped) sets \<^verbatim>\<open>skip_duplicate_check\<close> to
  \<^verbatim>\<open>True\<close>, \<^verbatim>\<open>False\<close> or \<^verbatim>\<open>"basic"\<close>.
\<close>

definition select_mode :: "string \<Rightarrow> json" where
  "select_mode dup_choice =
     (if dup_choice = ''1'' then JBool True
      else if dup_choice = ''2'' then JBool False
      else JStr ''basic'')"

definition initial_state :: "collection \<Rightarrow> import_state" where
  "initial_state c =
     \<lparr>coll = c, count_inserted = 0, count_skipped = 0, count_invalid = 0,
      count_load_errors = 0, duplicate_report = [], validation_report = [],
      load_error_report = []\<rparr>"

datatype abort = Folder_missing | Uncaught fault

text \<open>
  \<^verbatim>\<open>import_json_studies\<close>: \<open>isdir\<close> is what \<^verbatim>\<open>os.path.isdir(folder_path)\<close>
  answers and \<open>walk\<close> the files in the order the two loops visit them. A run that
  ends returns its final state and the artifacts it wrote.
\<close>

definition import_json_studies ::
  "bool \<Rightarrow> string \<Rightarrow> file_event list \<Rightarrow> collection
     \<Rightarrow> abort + (import_state \<times> (string \<times> report) list)" where
  "import_json_studies isdir dup_choice walk c =
     (if \<not> isdir then Inl Folder_missing
      else
        (case import_loop (select_mode dup_choice) walk (initial_state c) of
           Inl e \<Rightarrow> Inl (Uncaught e)
         | Inr st \<Rightarrow> Inr (st, save_reports st)))"

section \<open>The duplicate policy in the words of the specification\<close>

text \<open>
  The notions the specification states the Enhanced policy with, defined on their own so
  that the filter the code builds can be compared with them. The primary key is the
  \<^verbatim>\<open>doi\<close> if present and non-empty, else the \<^verbatim>\<open>title\<close>. A stored record
  matches a key when it holds the value under that field, alone or as an element of an
  array. The dataset names of a stored record are the \<^verbatim>\<open>name\<close>s of its
  \<^verbatim>\<open>dataset\<close> (an object, or a list of objects), an array-valued name counting
  for each of its elements as well.
\<close>

definition primary_key :: "(string \<times> json) list \<Rightarrow> (string \<times> json) option" where
  "primary_key data =
     (if has_key data ''doi'' \<and> truthy (dict_get data ''doi'' JNull)
        then Some (''doi'', dict_get data ''doi'' JNull)
      else if has_key data ''title'' then Some (''title'', dict_get data ''title'' JNull)
      else None)"

definition field_matches :: "string \<Rightarrow> json \<Rightarrow> (string \<times> json) list \<Rightarrow> bool" where
  "field_matches k v d =
     (case map_of d k of
        None \<Rightarrow> False
      | Some x \<Rightarrow> x = v \<or> (case x of JArr ys \<Rightarrow> v \<in> set ys | _ \<Rightarrow> False))"

definition name_of :: "json \<Rightarrow> json list" where
  "name_of x =
     (case x of
        JObj fs \<Rightarrow> (case map_of fs ''name'' of Some n \<Rightarrow> [n] | None \<Rightarrow> [])
      | _ \<Rightarrow> [])"

definition name_values :: "(string \<times> json) list \<Rightarrow> json list" where
  "name_values d =
     (case map_of d ''dataset'' of
        Some (JArr ds) \<Rightarrow> concat (map name_of ds)
      | Some x \<Rightarrow> name_of x
      | None \<Rightarrow> [])"


text \<open>What a pass over one file leaves behind, the store apart: the four counts and the three reports.\<close>

definition outcome ::
  "import_state \<Rightarrow> (nat \<times> nat \<times> nat \<times> nat) \<times> duplicate_entry list \<times> string list \<times> load_error_entry list" where
  "outcome st =
     ((count_inserted st, count_skipped st, count_invalid st, count_load_errors st),
      duplicate_report st, validation_report st, load_error_report st)"

section \<open>Sample inputs\<close>

definition sample_study :: json where
  "sample_study =
     JObj [(''study_id'', JStr ''S1''), (''title'', JStr ''Voice study''),
           (''authors'', JArr [JObj [(''name'', JStr ''A. Author'')]]),
           (''publication_type'', JStr ''journal''), (''journal'', JStr ''J''),
           (''year'', JInt 2020), (''doi'', JStr ''X''),
           (''ml_approaches'',
              JArr [JObj [(''algorithm'', JStr ''SVM''),
                          (''results'', JObj [(''accuracy'', JFloat (19 / 20))])]])]"

definition empty_collection :: collection where
  "empty_collection = \<lparr>docs = [], lookups = []\<rparr>"

definition file_of :: "string \<Rightarrow> load_result \<Rightarrow> file_event" where
  "file_of name res =
     \<lparr>root_dir = ''studies'', filename = name, content = res, find_fault = None,
      insert_fault = None\<rparr>"

definition sample_walk :: "file_event list" where
  "sample_walk =
     [file_of ''a.json'' (Loaded sample_study),
      file_of ''b.json'' (Decode_fails ''Expecting value'' 1 1),
      file_of ''notes.txt'' (Open_fails (Fault ''PermissionError'' ''denied''))]"

definition stocked_collection :: collection where
  "stocked_collection = \<lparr>docs = [(0, dict_items sample_study)], lookups = []\<rparr>"

definition invalid_study :: json where
  "invalid_study = JObj [(''title'', JStr ''No identifier'')]"

definition mixed_walk :: "file_event list" where
  "mixed_walk =
     [file_of ''a.json'' (Loaded sample_study),
      file_of ''c.json'' (Loaded invalid_study),
      file_of ''b.json'' (Decode_fails ''Expecting value'' 1 1)]"

definition study_with :: "json \<Rightarrow> (string \<times> json) list" where
  "study_with approaches =
     [(''study_id'', JStr ''S2''), (''title'', JStr ''Another study''),
      (''authors'', JArr [JObj [(''name'', JStr ''B. Author'')]]),
      (''publication_type'', JStr ''conference''), (''journal'', JStr ''Proc''),
      (''year'', JStr ''2021''), (''doi'', JStr ''Y''),
      (''ml_approaches'', approaches)]"

definition nested_results :: "(string \<times> json) list" where
  "nested_results = [(''accuracy'', JObj [(''mean'', JFloat (9 / 10))])]"

definition nested_approach :: "(string \<times> json) list" where
  "nested_approach = [(''algorithm'', JStr ''kNN''), (''results'', JObj nested_results)]"

definition locked_walk :: "file_event list" where
  "locked_walk =
     [file_of ''locked.json'' (Open_fails (Fault ''PermissionError'' ''Permission denied'')),
      file_of ''a.json'' (Loaded sample_study)]"

definition named_study :: "(string \<times> json) list" where
  "named_study =
     dict_items sample_study @
       [(''dataset'', JArr [JObj [(''name'', JStr ''A'')], JObj [(''name'', JStr ''B'')]])]"



definition named_walk :: "file_event list" where
  "named_walk =
     [file_of ''n.json'' (Loaded (JObj named_study)),
      file_of ''c.json'' (Loaded invalid_study),
      file_of ''b.json'' (Decode_fails ''Expecting value'' 1 1)]"

definition tagged_study :: json where
  "tagged_study = JObj (dict_items sample_study @ [(''_id'', JStr ''fixed'')])"

definition tagged_collection :: collection where
  "tagged_collection =
     \<lparr>docs = [(0, [(''_id'', JStr ''fixed''), (''doi'', JStr ''Z'')])], lookups = []\<rparr>"

section \<open>Report artifacts\<close>

lemma map_of_save_reports:
  "map_of (save_reports st) ''duplicate_report.json'' =
     (if duplicate_report st \<noteq> [] then Some (Duplicate_report (duplicate_report st)) else None)"
  "map_of (save_reports st) ''validation_report.json'' =
     (if validation_report st \<noteq> [] then Some (Validation_report (validation_report st)) else None)"
  "map_of (save_reports st) ''load_error_report.json'' =
     (if load_error_report st \<noteq> [] then Some (Load_error_report (load_error_report st)) else None)"
  by (simp_all add: save_reports_def)

lemma keys_save_reports:
  "fst ` set (save_reports st) \<subseteq> {''duplicate_report.json'', ''validation_report.json'', ''load_error_report.json''}"
  by (auto simp: save_reports_def)

text \<open>
  Claim C9. When a run ends, each of the three reports (duplicates, validation failures,
  load errors) is among the written artifacts, under its own name and with the list as
  its body, exactly when the list is not empty; nothing else is written.
\<close>

theorem reports_written_iff_nonempty:
  "case import_json_studies isdir dup_choice walk c of
     Inl a \<Rightarrow> True
   | Inr (st, written) \<Rightarrow>
       (has_key written ''duplicate_report.json'' = (duplicate_report st \<noteq> [])) \<and>
       (has_key written ''validation_report.json'' = (validation_report st \<noteq> [])) \<and>
       (has_key written ''load_error_report.json'' = (load_error_report st \<noteq> [])) \<and>
       (duplicate_report st \<noteq> [] \<longrightarrow>
          map_of written ''duplicate_report.json'' = Some (Duplicate_report (duplicate_report st))) \<and>
       (validation_report st \<noteq> [] \<longrightarrow>
          map_of written ''validation_report.json'' = Some (Validation_report (validation_report st))) \<and>
       (load_error_report st \<noteq> [] \<longrightarrow>
          map_of written ''load_error_report.json'' = Some (Load_error_report (load_error_report st))) \<and>
       fst ` set written \<subseteq>
         {''duplicate_report.json'', ''validation_report.json'', ''load_error_report.json''}"
proof (cases "import_json_studies isdir dup_choice walk c")
  case (Inl a)
  then show ?thesis by simp
next
  case (Inr r)
  obtain st written where r: "r = (st, written)" by (cases r)
  from Inr r have w: "written = save_reports st"
    by (auto simp: import_json_studies_def split: if_splits sum.splits)
  show ?thesis
    unfolding Inr r w using keys_save_reports[of st]
    by (simp add: has_key_def map_of_save_reports)
qed

theorem reports_written_iff_nonempty_witness:
  "case import_json_studies True ''1'' sample_walk empty_collection of
     Inl a \<Rightarrow> False
   | Inr (st, written) \<Rightarrow>
       count_inserted st = 1 \<and> count_load_errors st = 1 \<and>
       \<not> has_key written ''duplicate_report.json'' \<and>
       \<not> has_key written ''validation_report.json'' \<and>
       map_of written ''load_error_report.json'' = Some (Load_error_report (load_error_report st))"
proof -
  have ran: "case import_json_studies True ''1'' sample_walk empty_collection of
      Inl a \<Rightarrow> False
    | Inr (st, written) \<Rightarrow>
        count_inserted st = 1 \<and> count_load_errors st = 1 \<and> duplicate_report st = [] \<and>
        validation_report st = [] \<and> load_error_report st \<noteq> []"
    by code_simp
  show ?thesis
    using ran reports_written_iff_nonempty [of True "''1''" sample_walk empty_collection]
    by (cases "import_json_studies True ''1'' sample_walk empty_collection") auto
qed

section \<open>The duplicate check\<close>

text \<open>
  Claim C6. When the candidate has no non-empty \<^verbatim>\<open>doi\<close> and no \<^verbatim>\<open>title\<close>, the
  duplicate check finds no duplicate and leaves the state as it was, the log of lookups
  included, whatever the mode and whatever the store would answer.
\<close>

theorem no_primary_key_no_lookup:
  assumes "\<not> (has_key data ''doi'' \<and> truthy (dict_get data ''doi'' JNull))"
    and "\<not> has_key data ''title''"
  shows "duplicate_check skip_duplicate_check file_path data flt st = Inr (False, st)"
proof -
  have "basic_query data = []" and "enhanced_query data = []"
    using assms by (auto simp: basic_query_def enhanced_query_def)
  then show ?thesis
    by (simp add: duplicate_check_def build_query_def)
qed

theorem no_primary_key_no_lookup_witness:
  "duplicate_check (select_mode ''1'') ''f.json'' [(''doi'', JStr [])] None (initial_state empty_collection)
     = Inr (False, initial_state empty_collection) \<and>
   duplicate_check (select_mode ''2'') ''f.json'' [(''doi'', JStr [])] None (initial_state empty_collection)
     = Inr (False, initial_state empty_collection) \<and>
   duplicate_check (select_mode ''3'') ''f.json'' [(''doi'', JStr [])] None (initial_state empty_collection)
     = Inr (False, initial_state empty_collection) \<and>
   lookups (coll (initial_state empty_collection)) = []"
proof -
  have a: "\<not> (has_key [(''doi'', JStr [])] ''doi'' \<and> truthy (dict_get [(''doi'', JStr [])] ''doi'' JNull))"
    by (simp add: has_key_def dict_get_def)
  have b: "\<not> has_key [(''doi'', JStr [])] ''title''"
    by (simp add: has_key_def)
  show ?thesis
    using no_primary_key_no_lookup [OF a b]
    by (simp add: initial_state_def empty_collection_def)
qed

section \<open>Disabled duplicate detection\<close>

lemma duplicate_check_disabled:
  "duplicate_check (JBool True) file_path data flt st = Inr (False, st)"
  by (simp add: duplicate_check_def)

lemma outcome_unexpected_error:
  "outcome st1 = outcome st2 \<Longrightarrow>
     outcome (unexpected_error p e st1) = outcome (unexpected_error p e st2)"
  by (simp add: outcome_def unexpected_error_def)

lemma outcome_decode_error:
  "outcome st1 = outcome st2 \<Longrightarrow>
     outcome (decode_error p m l k st1) = outcome (decode_error p m l k st2)"
  by (simp add: outcome_def decode_error_def)

lemma holds_id_append:
  "holds_id (ds @ [(n, d)]) x =
     (holds_id ds x \<or> (case map_of d ''_id'' of Some y \<Rightarrow> same_value y x | None \<Rightarrow> False))"
  by (simp add: holds_id_def)

text \<open>
  With the check disabled a valid record goes straight to \<^verbatim>\<open>insert_one\<close>, whose
  answer depends on the store only through the record's own \<^verbatim>\<open>_id\<close>.
\<close>

lemma process_file_disabled_valid:
  assumes "content f = Loaded (JObj d)" and "validate (JObj d)"
  shows "process_file (JBool True) f st =
    (case insert_fault f of
       Some e \<Rightarrow> Inr (unexpected_error (os_path_join (root_dir f) (filename f)) e st)
     | None \<Rightarrow>
         if (case map_of d ''_id'' of Some x \<Rightarrow> holds_id (docs (coll st)) x | None \<Rightarrow> False)
         then Inr (unexpected_error (os_path_join (root_dir f) (filename f))
                (Fault ''DuplicateKeyError'' ''E11000 duplicate key error'') st)
         else Inr (st\<lparr>coll := (coll st)\<lparr>docs := docs (coll st) @ [(length (docs (coll st)), d)]\<rparr>,
                    count_inserted := count_inserted st + 1\<rparr>))"
  using assms
  by (simp add: process_file_def duplicate_check_disabled insert_one_def Let_def
      split: option.splits)

lemma process_file_disabled_other:
  assumes "\<forall>d. content f = Loaded (JObj d) \<longrightarrow> \<not> validate (JObj d)"
  shows "process_file (JBool True) f st =
    (case content f of
       Open_fails e \<Rightarrow> Inl e
     | Decode_fails m l k \<Rightarrow> Inr (decode_error (os_path_join (root_dir f) (filename f)) m l k st)
     | Load_fails e \<Rightarrow> Inr (unexpected_error (os_path_join (root_dir f) (filename f)) e st)
     | Loaded data \<Rightarrow>
         Inr (st\<lparr>validation_report :=
                    validation_report st @ [os_path_join (root_dir f) (filename f)],
                 count_invalid := count_invalid st + 1\<rparr>))"
proof (cases "content f")
  case (Loaded data)
  have "\<not> validate data"
  proof
    assume v: "validate data"
    then obtain d where "data = JObj d"
      by (cases data) (simp_all add: validate_def study_schema_def object_of_def)
    with v Loaded assms show False by simp
  qed
  with Loaded show ?thesis by (simp add: process_file_def)
qed (simp_all add: process_file_def)

lemma process_file_disabled_outcome:
  assumes "outcome st1 = outcome st2"
    and "\<forall>data x. content f = Loaded data \<and> map_of (dict_items data) ''_id'' = Some x \<longrightarrow>
           holds_id (docs (coll st1)) x = holds_id (docs (coll st2)) x"
  shows "map_sum id outcome (process_file (JBool True) f st1) =
         map_sum id outcome (process_file (JBool True) f st2)"
proof (cases "\<exists>d. content f = Loaded (JObj d) \<and> validate (JObj d)")
  case False
  then have no: "\<forall>d. content f = Loaded (JObj d) \<longrightarrow> \<not> validate (JObj d)" by blast
  have inv: "outcome (st1\<lparr>validation_report := validation_report st1 @ [p],
                 count_invalid := count_invalid st1 + 1\<rparr>) =
             outcome (st2\<lparr>validation_report := validation_report st2 @ [p],
                 count_invalid := count_invalid st2 + 1\<rparr>)" for p
    using assms(1) by (simp add: outcome_def)
  show ?thesis
    unfolding process_file_disabled_other[OF no]
    using inv outcome_unexpected_error[OF assms(1)] outcome_decode_error[OF assms(1)]
    by (cases "content f") simp_all
next
  case True
  then obtain d where d: "content f = Loaded (JObj d)" "validate (JObj d)" by blast
  have ins: "outcome (st1\<lparr>coll := a, count_inserted := count_inserted st1 + 1\<rparr>) =
             outcome (st2\<lparr>coll := b, count_inserted := count_inserted st2 + 1\<rparr>)" for a b
    using assms(1) by (simp add: outcome_def)
  have agree: "(case map_of d ''_id'' of Some x \<Rightarrow> holds_id (docs (coll st1)) x | None \<Rightarrow> False) =
      (case map_of d ''_id'' of Some x \<Rightarrow> holds_id (docs (coll st2)) x | None \<Rightarrow> False)"
    using assms(2) d(1) by (cases "map_of d ''_id''") (simp_all add: dict_items_def)
  show ?thesis
    unfolding process_file_disabled_valid[OF d] agree
    using ins outcome_unexpected_error[OF assms(1)]
    by (cases "insert_fault f") simp_all
qed

lemma process_file_disabled_agree:
  assumes "\<forall>data x. content f = Loaded data \<and> map_of (dict_items data) ''_id'' = Some x \<longrightarrow>
           holds_id (docs (coll st1)) x = holds_id (docs (coll st2)) x"
    and "process_file (JBool True) f st1 = Inr s1"
    and "process_file (JBool True) f st2 = Inr s2"
    and "holds_id (docs (coll st1)) y = holds_id (docs (coll st2)) y"
  shows "holds_id (docs (coll s1)) y = holds_id (docs (coll s2)) y"
proof (cases "\<exists>d. content f = Loaded (JObj d) \<and> validate (JObj d)")
  case False
  then have no: "\<forall>d. content f = Loaded (JObj d) \<longrightarrow> \<not> validate (JObj d)" by blast
  have "docs (coll s1) = docs (coll st1)" "docs (coll s2) = docs (coll st2)"
    using assms(2,3) unfolding process_file_disabled_other[OF no]
    by (cases "content f"; auto simp: decode_error_def unexpected_error_def)+
  with assms(4) show ?thesis by simp
next
  case True
  then obtain d where d: "content f = Loaded (JObj d)" "validate (JObj d)" by blast
  have agree: "(case map_of d ''_id'' of Some x \<Rightarrow> holds_id (docs (coll st1)) x | None \<Rightarrow> False) =
      (case map_of d ''_id'' of Some x \<Rightarrow> holds_id (docs (coll st2)) x | None \<Rightarrow> False)"
    using assms(1) d(1) by (cases "map_of d ''_id''") (simp_all add: dict_items_def)
  show ?thesis
  proof (cases "insert_fault f = None \<and>
      \<not> (case map_of d ''_id'' of Some x \<Rightarrow> holds_id (docs (coll st2)) x | None \<Rightarrow> False)")
    case True
    with assms(2,3) agree have
      "docs (coll s1) = docs (coll st1) @ [(length (docs (coll st1)), d)]"
      "docs (coll s2) = docs (coll st2) @ [(length (docs (coll st2)), d)]"
      unfolding process_file_disabled_valid[OF d] by auto
    with assms(4) show ?thesis by (simp add: holds_id_append)
  next
    case False
    with assms(2,3) agree have "docs (coll s1) = docs (coll st1)" "docs (coll s2) = docs (coll st2)"
      unfolding process_file_disabled_valid[OF d]
      by (auto simp: unexpected_error_def split: option.splits if_splits)
    with assms(4) show ?thesis by simp
  qed
qed

lemma process_file_disabled_lookups:
  "process_file (JBool True) f st = Inr st' \<Longrightarrow>
     lookups (coll st') = lookups (coll st) \<and> count_skipped st' = count_skipped st \<and>
     duplicate_report st' = duplicate_report st"
  by (auto simp: process_file_def duplicate_check_disabled insert_one_def unexpected_error_def
      decode_error_def Let_def split: load_result.splits if_splits option.splits json.splits)

lemma import_loop_disabled_outcome:
  assumes "outcome st1 = outcome st2"
    and "\<forall>f\<in>set walk. \<forall>data x.
           content f = Loaded data \<and> map_of (dict_items data) ''_id'' = Some x \<longrightarrow>
           holds_id (docs (coll st1)) x = holds_id (docs (coll st2)) x"
  shows "map_sum id outcome (import_loop (JBool True) walk st1) =
         map_sum id outcome (import_loop (JBool True) walk st2)"
  using assms
proof (induction walk arbitrary: st1 st2)
  case Nil
  then show ?case by simp
next
  case (Cons f fs)
  have rest: "\<forall>g\<in>set fs. \<forall>data x.
           content g = Loaded data \<and> map_of (dict_items data) ''_id'' = Some x \<longrightarrow>
           holds_id (docs (coll st1)) x = holds_id (docs (coll st2)) x"
    using Cons.prems(2) by (metis list.set_intros(2))
  show ?case
  proof (cases "ends_with (filename f) ''.json''")
    case False
    then show ?thesis using Cons.IH[OF Cons.prems(1) rest] by simp
  next
    case True
    have here: "\<forall>data x. content f = Loaded data \<and> map_of (dict_items data) ''_id'' = Some x \<longrightarrow>
           holds_id (docs (coll st1)) x = holds_id (docs (coll st2)) x"
      using Cons.prems(2) by (metis list.set_intros(1))
    have pf: "map_sum id outcome (process_file (JBool True) f st1) =
              map_sum id outcome (process_file (JBool True) f st2)"
      by (rule process_file_disabled_outcome[OF Cons.prems(1) here])
    show ?thesis
    proof (cases "process_file (JBool True) f st1")
      case (Inl e)
      with pf have "process_file (JBool True) f st2 = Inl e"
        by (cases "process_file (JBool True) f st2") auto
      with Inl True show ?thesis by simp
    next
      case (Inr s1)
      with pf obtain s2 where s2: "process_file (JBool True) f st2 = Inr s2" "outcome s1 = outcome s2"
        by (cases "process_file (JBool True) f st2") auto
      have "\<forall>g\<in>set fs. \<forall>data x.
           content g = Loaded data \<and> map_of (dict_items data) ''_id'' = Some x \<longrightarrow>
           holds_id (docs (coll s1)) x = holds_id (docs (coll s2)) x"
        using rest process_file_disabled_agree[OF here Inr s2(1)] by blast
      with Inr True s2(1) Cons.IH[OF s2(2)] show ?thesis by simp
    qed
  qed
qed

lemma import_loop_disabled_lookups:
  "import_loop (JBool True) walk st = Inr st' \<Longrightarrow> lookups (coll st') = lookups (coll st)"
proof (induction walk arbitrary: st)
  case Nil
  then show ?case by simp
next
  case (Cons f fs)
  then show ?case
    by (auto split: if_splits sum.splits dest!: process_file_disabled_lookups)
qed

text \<open>
  Claim C8, as the code has it. With duplicate detection disabled (answer \<^verbatim>\<open>1\<close>)
  \<^verbatim>\<open>find_one\<close> is never called and no duplicate is ever reported, whatever the
  collection holds. The pass over a file leaves the same counts and reports for two
  collections that agree on whether they hold the \<^verbatim>\<open>_id\<close> the file's record carries,
  if it carries one, and so does the whole run for two collections that agree on every
  such \<^verbatim>\<open>_id\<close> of the walk (the store's other faults striking the same files).
\<close>

theorem disabled_mode_no_lookup:
  "((\<forall>data x. content f = Loaded data \<and> map_of (dict_items data) ''_id'' = Some x \<longrightarrow>
        holds_id (docs ca) x = holds_id (docs cb) x) \<longrightarrow>
      map_sum id outcome (process_file (select_mode ''1'') f (st\<lparr>coll := ca\<rparr>)) =
      map_sum id outcome (process_file (select_mode ''1'') f (st\<lparr>coll := cb\<rparr>))) \<and>
   ((\<forall>g\<in>set walk. \<forall>data x.
        content g = Loaded data \<and> map_of (dict_items data) ''_id'' = Some x \<longrightarrow>
        holds_id (docs ca) x = holds_id (docs cb) x) \<longrightarrow>
      map_sum id (\<lambda>(s, written). (outcome s, written)) (import_json_studies isdir ''1'' walk ca) =
      map_sum id (\<lambda>(s, written). (outcome s, written)) (import_json_studies isdir ''1'' walk cb)) \<and>
   (\<forall>st'. process_file (select_mode ''1'') f st = Inr st' \<longrightarrow>
      lookups (coll st') = lookups (coll st) \<and> count_skipped st' = count_skipped st \<and>
      duplicate_report st' = duplicate_report st) \<and>
   (\<forall>st'. import_loop (select_mode ''1'') walk st = Inr st' \<longrightarrow>
      lookups (coll st') = lookups (coll st))"
proof -
  have m: "select_mode ''1'' = JBool True" by (simp add: select_mode_def)
  have o: "outcome (st\<lparr>coll := ca\<rparr>) = outcome (st\<lparr>coll := cb\<rparr>)"
    by (simp add: outcome_def)
  have i: "outcome (initial_state ca) = outcome (initial_state cb)"
    by (simp add: outcome_def initial_state_def)
  have sr: "\<And>s1 s2. outcome s1 = outcome s2 \<Longrightarrow> save_reports s1 = save_reports s2"
    by (simp add: outcome_def save_reports_def)
  have one: "map_sum id outcome (process_file (JBool True) f (st\<lparr>coll := ca\<rparr>)) =
      map_sum id outcome (process_file (JBool True) f (st\<lparr>coll := cb\<rparr>))"
    if "\<forall>data x. content f = Loaded data \<and> map_of (dict_items data) ''_id'' = Some x \<longrightarrow>
        holds_id (docs ca) x = holds_id (docs cb) x"
    by (rule process_file_disabled_outcome[OF o]) (use that in simp)
  have run: "map_sum id (\<lambda>(s, written). (outcome s, written)) (import_json_studies isdir ''1'' walk ca) =
     map_sum id (\<lambda>(s, written). (outcome s, written)) (import_json_studies isdir ''1'' walk cb)"
    if agree: "\<forall>g\<in>set walk. \<forall>data x.
        content g = Loaded data \<and> map_of (dict_items data) ''_id'' = Some x \<longrightarrow>
        holds_id (docs ca) x = holds_id (docs cb) x"
  proof -
    have loop: "map_sum id outcome (import_loop (JBool True) walk (initial_state ca)) =
        map_sum id outcome (import_loop (JBool True) walk (initial_state cb))"
      by (rule import_loop_disabled_outcome[OF i]) (use agree in \<open>simp add: initial_state_def\<close>)
    show ?thesis
    proof (cases "import_loop (JBool True) walk (initial_state ca)")
      case (Inl e)
      with loop have "import_loop (JBool True) walk (initial_state cb) = Inl e"
        by (cases "import_loop (JBool True) walk (initial_state cb)") auto
      with Inl show ?thesis by (simp add: import_json_studies_def m)
    next
      case (Inr s1)
      with loop obtain s2 where s2: "import_loop (JBool True) walk (initial_state cb) = Inr s2"
          "outcome s1 = outcome s2"
        by (cases "import_loop (JBool True) walk (initial_state cb)") auto
      with Inr sr[OF s2(2)] show ?thesis by (simp add: import_json_studies_def m)
    qed
  qed
  show ?thesis
    using one run process_file_disabled_lookups import_loop_disabled_lookups
    unfolding m by blast
qed

theorem disabled_mode_no_lookup_witness:
  "map_of (dict_items tagged_study) ''_id'' = Some (JStr ''fixed'') \<and>
   map_sum id outcome
     (process_file (select_mode ''1'') (file_of ''t.json'' (Loaded tagged_study))
        ((initial_state empty_collection)\<lparr>coll := empty_collection\<rparr>)) =
   map_sum id outcome
     (process_file (select_mode ''1'') (file_of ''t.json'' (Loaded tagged_study))
        ((initial_state empty_collection)\<lparr>coll := stocked_collection\<rparr>)) \<and>
   (case process_file (select_mode ''1'') (file_of ''t.json'' (Loaded tagged_study))
           (initial_state stocked_collection) of
      Inl e \<Rightarrow> False
    | Inr st' \<Rightarrow> lookups (coll st') = [] \<and> count_inserted st' = 1 \<and> length (docs (coll st')) = 2)"
proof -
  let ?f = "file_of ''t.json'' (Loaded tagged_study)"
  have own: "map_of (dict_items tagged_study) ''_id'' = Some (JStr ''fixed'')"
    by code_simp
  have h: "holds_id (docs empty_collection) (JStr ''fixed'') =
      holds_id (docs stocked_collection) (JStr ''fixed'')"
    by code_simp
  have agree: "\<forall>data x. content ?f = Loaded data \<and> map_of (dict_items data) ''_id'' = Some x \<longrightarrow>
      holds_id (docs empty_collection) x = holds_id (docs stocked_collection) x"
    using own h by (auto simp: file_of_def)
  have ran: "case process_file (select_mode ''1'') ?f (initial_state stocked_collection) of
      Inl e \<Rightarrow> False
    | Inr st' \<Rightarrow> lookups (coll st') = [] \<and> count_inserted st' = 1 \<and> length (docs (coll st')) = 2"
    by code_simp
  show ?thesis
    using own ran agree disabled_mode_no_lookup
      [where f = ?f and st = "initial_state empty_collection"
         and ca = empty_collection and cb = stocked_collection]
    by simp
qed

text \<open>
  The claim as stated (the same outcome for any two stores) fails for a valid record that
  carries an \<^verbatim>\<open>_id\<close>: against the empty collection it is inserted, against a
  collection that holds this \<^verbatim>\<open>_id\<close> the insertion raises and the file is counted as
  a load error.
\<close>

theorem disabled_mode_store_counterexample:
  "validate tagged_study \<and>
   (case process_file (select_mode ''1'') (file_of ''t.json'' (Loaded tagged_study))
           (initial_state empty_collection) of
      Inl e \<Rightarrow> False
    | Inr st' \<Rightarrow> count_inserted st' = 1 \<and> count_load_errors st' = 0) \<and>
   (case process_file (select_mode ''1'') (file_of ''t.json'' (Loaded tagged_study))
           (initial_state tagged_collection) of
      Inl e \<Rightarrow> False
    | Inr st' \<Rightarrow>
        count_inserted st' = 0 \<and> count_load_errors st' = 1 \<and>
        map err_type (load_error_report st') = [''DuplicateKeyError''] \<and>
        lookups (coll st') = [])"
  by code_simp

section \<open>Only validated records are inserted\<close>

lemma validate_object: "validate data \<Longrightarrow> JObj (dict_items data) = data"
  by (cases data) (simp_all add: validate_def study_schema_def object_of_def dict_items_def)

lemma duplicate_check_docs:
  "duplicate_check skip p data flt st = Inr (b, st1) \<Longrightarrow>
     docs (coll st1) = docs (coll st) \<and> count_inserted st1 = count_inserted st"
  by (auto simp: duplicate_check_def find_one_def Let_def
      split: if_splits prod.splits sum.splits option.splits)

lemma duplicate_check_docs_fault:
  "duplicate_check skip p data flt st = Inl (e, st1) \<Longrightarrow>
     docs (coll st1) = docs (coll st) \<and> count_inserted st1 = count_inserted st"
  by (auto simp: duplicate_check_def find_one_def Let_def
      split: if_splits prod.splits sum.splits option.splits)

lemma process_file_docs:
  assumes "process_file skip f st = Inr st'"
  shows "(docs (coll st') = docs (coll st) \<and> count_inserted st' = count_inserted st) \<or>
         (\<exists>data. content f = Loaded data \<and> validate data \<and>
            docs (coll st') = docs (coll st) @ [(length (docs (coll st)), dict_items data)] \<and>
            count_inserted st' = count_inserted st + 1 \<and>
            count_skipped st' = count_skipped st \<and> count_invalid st' = count_invalid st \<and>
            count_load_errors st' = count_load_errors st)"
proof (cases "content f")
  case (Loaded data)
  show ?thesis
  proof (cases "validate data")
    case False
    with Loaded assms show ?thesis by (auto simp: process_file_def Let_def)
  next
    case True
    let ?p = "os_path_join (root_dir f) (filename f)"
    show ?thesis
    proof (cases "duplicate_check skip ?p (dict_items data) (find_fault f) st")
      case (Inl a)
      obtain e st1 where a: "a = (e, st1)" by (cases a)
      from duplicate_check_docs_fault[OF Inl[unfolded a]] Loaded True assms Inl a
      show ?thesis by (auto simp: process_file_def Let_def unexpected_error_def)
    next
      case (Inr r)
      obtain b st1 where r: "r = (b, st1)" by (cases r)
      note d = duplicate_check_docs[OF Inr[unfolded r]]
      show ?thesis
      proof (cases b)
        case True
        with d Loaded \<open>validate data\<close> assms Inr r show ?thesis
          by (auto simp: process_file_def Let_def)
      next
        case False
        have same: "count_skipped st1 = count_skipped st \<and> count_invalid st1 = count_invalid st \<and>
            count_load_errors st1 = count_load_errors st"
          using Inr r False
          by (auto simp: duplicate_check_def find_one_def Let_def
              split: if_splits prod.splits sum.splits option.splits)
        from False d same Loaded \<open>validate data\<close> assms Inr r show ?thesis
          by (auto simp: process_file_def Let_def insert_one_def unexpected_error_def
              dict_items_def split: option.splits json.splits if_splits)
      qed
    qed
  qed
qed (use assms in \<open>auto simp: process_file_def Let_def decode_error_def unexpected_error_def\<close>)

lemma import_loop_docs:
  "import_loop skip walk st = Inr st' \<Longrightarrow>
     \<exists>new. docs (coll st') = docs (coll st) @ new \<and> list_all (\<lambda>(i, d). validate (JObj d)) new \<and>
       count_inserted st' = count_inserted st + length new"
proof (induction walk arbitrary: st)
  case Nil
  then show ?case by simp
next
  case (Cons f fs)
  show ?case
  proof (cases "ends_with (filename f) ''.json''")
    case False
    with Cons show ?thesis by simp
  next
    case True
    with Cons.prems obtain s where s: "process_file skip f st = Inr s" "import_loop skip fs s = Inr st'"
      by (auto split: sum.splits)
    from Cons.IH[OF s(2)] obtain new where new: "docs (coll st') = docs (coll s) @ new"
      "list_all (\<lambda>(i, d). validate (JObj d)) new" "count_inserted st' = count_inserted s + length new"
      by blast
    from process_file_docs[OF s(1)] show ?thesis
    proof
      assume "docs (coll s) = docs (coll st) \<and> count_inserted s = count_inserted st"
      with new show ?thesis by auto
    next
      assume "\<exists>data. content f = Loaded data \<and> validate data \<and>
            docs (coll s) = docs (coll st) @ [(length (docs (coll st)), dict_items data)] \<and>
            count_inserted s = count_inserted st + 1 \<and>
            count_skipped s = count_skipped st \<and> count_invalid s = count_invalid st \<and>
            count_load_errors s = count_load_errors st"
      then obtain data where "validate data"
        "docs (coll s) = docs (coll st) @ [(length (docs (coll st)), dict_items data)]"
        "count_inserted s = count_inserted st + 1" by blast
      with new show ?thesis
        by (intro exI[of _ "(length (docs (coll st)), dict_items data) # new"])
          (simp add: validate_object)
    qed
  qed
qed

text \<open>
  Claim C10. The documents a run adds to the collection have all passed
  \<^verbatim>\<open>validate\<close>, and \<^verbatim>\<open>count_inserted\<close> counts exactly them. In the pass over one
  file the collection either keeps its documents or gains the file's decoded record,
  which then is valid and was counted neither as a duplicate, nor as invalid, nor as a
  load error.
\<close>

theorem inserted_records_validated:
  "(\<forall>st'. import_loop skip_duplicate_check walk st = Inr st' \<longrightarrow>
      (\<exists>new. docs (coll st') = docs (coll st) @ new \<and>
         list_all (\<lambda>(i, d). validate (JObj d)) new \<and>
         count_inserted st' = count_inserted st + length new)) \<and>
   (\<forall>st'. process_file skip_duplicate_check f st = Inr st' \<longrightarrow>
      (docs (coll st') = docs (coll st) \<and> count_inserted st' = count_inserted st) \<or>
      (\<exists>data. content f = Loaded data \<and> validate data \<and>
         docs (coll st') = docs (coll st) @ [(length (docs (coll st)), dict_items data)] \<and>
         count_inserted st' = count_inserted st + 1 \<and>
         count_skipped st' = count_skipped st \<and> count_invalid st' = count_invalid st \<and>
         count_load_errors st' = count_load_errors st))"
  using import_loop_docs process_file_docs by blast

theorem inserted_records_validated_witness:
  "case import_loop (select_mode ''2'') mixed_walk (initial_state empty_collection) of
     Inl e \<Rightarrow> False
   | Inr st' \<Rightarrow>
       (\<exists>new. docs (coll st') = docs (coll (initial_state empty_collection)) @ new \<and>
          list_all (\<lambda>(i, d). validate (JObj d)) new \<and>
          count_inserted st' = count_inserted (initial_state empty_collection) + length new) \<and>
       count_inserted st' = 1 \<and> count_invalid st' = 1 \<and> count_load_errors st' = 1"
proof -
  have ran: "case import_loop (select_mode ''2'') mixed_walk (initial_state empty_collection) of
      Inl e \<Rightarrow> False
    | Inr st' \<Rightarrow> count_inserted st' = 1 \<and> count_invalid st' = 1 \<and> count_load_errors st' = 1"
    by code_simp
  show ?thesis
    using ran inserted_records_validated
      [where skip_duplicate_check = "select_mode ''2''" and walk = mixed_walk
         and st = "initial_state empty_collection"]
    by (cases "import_loop (select_mode ''2'') mixed_walk (initial_state empty_collection)") auto
qed

section \<open>Validation\<close>

lemma valid_propertyD:
  "valid (Schema ts props items req one pats addl) (JObj fs) \<Longrightarrow>
     (k, sub) \<in> set props \<Longrightarrow> map_of fs k = Some x \<Longrightarrow> valid sub x"
  by (auto simp: list_all_iff)

lemma valid_itemD:
  "valid (Schema ts props (Some sub) req one pats addl) (JArr xs) \<Longrightarrow>
     x \<in> set xs \<Longrightarrow> valid sub x"
  by (auto simp: list_all_iff)

lemma valid_patternD:
  "valid (Schema ts props items req one pats addl) (JObj fs) \<Longrightarrow>
     (p, sub) \<in> set pats \<Longrightarrow> (k, x) \<in> set fs \<Longrightarrow> re_search p k \<Longrightarrow> valid sub x"
  by (simp add: list_all_iff) force

lemma valid_results_value:
  assumes "valid results_schema (JObj rs)" and "(k, v) \<in> set rs"
  shows "is_type T_number v \<or> is_type T_string v \<or> v = JNull"
proof -
  have "valid (of_type [T_number, T_string, T_null]) v"
    using valid_patternD [OF assms(1) [unfolded results_schema_def], of Any_key _ k v] assms(2)
    by simp
  then show ?thesis by (simp add: of_type_def)
qed

lemma valid_approach_results:
  assumes "valid ml_approach_schema (JObj afs)" and "map_of afs ''results'' = Some r"
  shows "valid results_schema r"
  using valid_propertyD [OF assms(1) [unfolded ml_approach_schema_def object_of_def],
      of "''results''" results_schema r] assms(2)
  by simp

lemma valid_study_approach:
  assumes "validate (JObj fs)" and "map_of fs ''ml_approaches'' = Some (JArr approaches)"
    and "a \<in> set approaches"
  shows "valid ml_approach_schema a"
proof -
  have "valid (array_of ml_approach_schema) (JArr approaches)"
    using valid_propertyD [OF assms(1) [unfolded validate_def study_schema_def object_of_def],
        of "''ml_approaches''" "array_of ml_approach_schema" "JArr approaches"] assms(2)
    by simp
  then show ?thesis
    unfolding array_of_def using assms(3) by (rule valid_itemD)
qed

text \<open>
  Claim C7. A record in which some entry of \<^verbatim>\<open>ml_approaches\<close> has a
  \<^verbatim>\<open>results\<close> mapping with a value that is an array or an object (or a bool) fails
  validation: only numbers, strings and \<^verbatim>\<open>null\<close> pass there.
\<close>

theorem composite_result_rejected:
  assumes "map_of fs ''ml_approaches'' = Some (JArr approaches)"
    and "JObj afs \<in> set approaches"
    and "map_of afs ''results'' = Some (JObj rs)"
    and "(k, v) \<in> set rs"
    and "v = JArr xs \<or> v = JObj ys \<or> v = JBool b"
  shows "\<not> validate (JObj fs)"
proof
  assume "validate (JObj fs)"
  then have "valid ml_approach_schema (JObj afs)"
    using assms(1,2) by (rule valid_study_approach)
  then have "valid results_schema (JObj rs)"
    using assms(3) by (rule valid_approach_results)
  then have "is_type T_number v \<or> is_type T_string v \<or> v = JNull"
    using assms(4) by (rule valid_results_value)
  with assms(5) show False by auto
qed

theorem composite_result_rejected_witness:
  "map_of (study_with (JArr [JObj nested_approach])) ''ml_approaches'' = Some (JArr [JObj nested_approach]) \<and>
   map_of nested_approach ''results'' = Some (JObj nested_results) \<and>
   \<not> validate (JObj (study_with (JArr [JObj nested_approach])))"
proof -
  have a: "map_of (study_with (JArr [JObj nested_approach])) ''ml_approaches'' = Some (JArr [JObj nested_approach])"
    by (simp add: study_with_def)
  have b: "JObj nested_approach \<in> set [JObj nested_approach]" by simp
  have c: "map_of nested_approach ''results'' = Some (JObj nested_results)"
    by (simp add: nested_approach_def)
  have d: "(''accuracy'', JObj [(''mean'', JFloat (9 / 10))]) \<in> set nested_results"
    by (simp add: nested_results_def)
  have e: "JObj [(''mean'', JFloat (9 / 10))] = JArr [] \<or>
      JObj [(''mean'', JFloat (9 / 10))] = JObj [(''mean'', JFloat (9 / 10))] \<or>
      JObj [(''mean'', JFloat (9 / 10))] = JBool False"
    by simp
  show ?thesis
    using a c composite_result_rejected [OF a b c d e] by simp
qed

text \<open>
  Claim C3, as the code has it. The schema puts no lower bound on the length of
  \<^verbatim>\<open>ml_approaches\<close>: a record whose \<^verbatim>\<open>ml_approaches\<close> is the empty list is
  valid exactly when the seven other required fields are present and every other declared
  property that is present conforms to its sub-schema.
\<close>

theorem empty_approaches_accepted:
  assumes "map_of fs ''ml_approaches'' = Some (JArr [])"
  shows "validate (JObj fs) =
    (list_all (has_key fs)
       [''study_id'', ''title'', ''authors'', ''publication_type'', ''journal'', ''year'', ''doi''] \<and>
     list_all (\<lambda>(k, sub). k = ''ml_approaches'' \<or>
          (case map_of fs k of None \<Rightarrow> True | Some x \<Rightarrow> valid sub x))
       (s_properties study_schema))"
proof -
  have "valid (array_of ml_approach_schema) (JArr [])"
    by (simp add: array_of_def)
  with assms show ?thesis
    by (auto simp: validate_def study_schema_def object_of_def has_key_def)
qed

theorem empty_approaches_accepted_witness:
  "validate (JObj (study_with (JArr []))) \<and>
   has_key (study_with (JArr [])) ''ml_approaches'' \<and>
   dict_get (study_with (JArr [])) ''ml_approaches'' JNull = JArr []"
proof -
  have a: "map_of (study_with (JArr [])) ''ml_approaches'' = Some (JArr [])"
    by (simp add: study_with_def)
  have b: "list_all (has_key (study_with (JArr [])))
       [''study_id'', ''title'', ''authors'', ''publication_type'', ''journal'', ''year'', ''doi''] \<and>
     list_all (\<lambda>(k, sub). k = ''ml_approaches'' \<or>
          (case map_of (study_with (JArr [])) k of None \<Rightarrow> True | Some x \<Rightarrow> valid sub x))
       (s_properties study_schema)"
    by code_simp
  show ?thesis
    using a b empty_approaches_accepted [OF a] by (simp add: has_key_def dict_get_def)
qed

text \<open>
  The claim as stated (an empty \<^verbatim>\<open>ml_approaches\<close> makes validation fail) does not
  hold for this record.
\<close>

theorem empty_approaches_counterexample:
  "map_of (study_with (JArr [])) ''ml_approaches'' = Some (JArr []) \<and>
   validate (JObj (study_with (JArr [])))"
  by code_simp

section \<open>Faults during a file's pass\<close>

text \<open>
  Everything raised after the file is open is caught: the pass over a file ends with an
  exception only when \<^verbatim>\<open>open\<close> fails, and so does the loop.
\<close>

lemma process_file_raises_iff:
  "(\<exists>e. process_file skip f st = Inl e) = (\<exists>e. content f = Open_fails e)"
  by (cases "content f")
    (auto simp: process_file_def Let_def split: sum.splits prod.splits bool.splits)

lemma import_loop_returns:
  assumes "\<forall>f\<in>set walk. ends_with (filename f) ''.json'' \<longrightarrow> (\<forall>e. content f \<noteq> Open_fails e)"
  shows "\<exists>st'. import_loop skip walk st = Inr st'"
  using assms
proof (induction walk arbitrary: st)
  case Nil
  then show ?case by simp
next
  case (Cons f fs)
  show ?case
  proof (cases "ends_with (filename f) ''.json''")
    case False
    then show ?thesis using Cons by simp
  next
    case True
    with Cons.prems have "\<not> (\<exists>e. content f = Open_fails e)" by simp
    then have "\<not> (\<exists>e. process_file skip f st = Inl e)"
      unfolding process_file_raises_iff .
    then obtain s where "process_file skip f st = Inr s"
      by (cases "process_file skip f st") auto
    then show ?thesis using True Cons.IH[of s] Cons.prems by simp
  qed
qed

text \<open>
  Claim C4, at the input where the code departs from it: the first file of the walk
  cannot be opened. \<^verbatim>\<open>open\<close> is called before the \<^verbatim>\<open>try\<close>, so the exception
  leaves \<^verbatim>\<open>import_json_studies\<close>: nothing is recorded for the file and the second
  file is never processed.
\<close>

theorem open_failure_aborts_run:
  "import_json_studies True ''2'' locked_walk empty_collection =
     Inl (Uncaught (Fault ''PermissionError'' ''Permission denied''))"
  by code_simp

section \<open>Basic duplicate detection\<close>

text \<open>
  Claim C5, at the input where the code departs from it: the store holds a record with
  the candidate's \<^verbatim>\<open>doi\<close> and the mode is Basic (answer \<^verbatim>\<open>3\<close>). The string
  \<^verbatim>\<open>"basic"\<close> is true, so \<^verbatim>\<open>if not skip_duplicate_check\<close> skips the whole check:
  no lookup is made and the record is inserted a second time.
\<close>

theorem basic_mode_skips_duplicate_check:
  "case process_file (select_mode ''3'') (file_of ''a.json'' (Loaded sample_study))
          (initial_state stocked_collection) of
     Inl e \<Rightarrow> False
   | Inr st' \<Rightarrow>
       count_inserted st' = 1 \<and> count_skipped st' = 0 \<and> duplicate_report st' = [] \<and>
       lookups (coll st') = [] \<and>
       docs (coll st') = [(0, dict_items sample_study), (1, dict_items sample_study)]"
  by code_simp

section \<open>Enhanced duplicate detection\<close>

lemma split_dots_keys:
  "split_dots ''doi'' = [''doi'']"
  "split_dots ''title'' = [''title'']"
  "split_dots ''dataset.name'' = [''dataset'', ''name'']"
  by simp_all

lemma field_of_name: "field_of ''name'' = name_of"
  by (rule ext) (simp add: field_of_def name_of_def)

lemma concat_singletons: "concat (map (\<lambda>z. [z]) xs) = xs"
  by (induction xs) simp_all

lemma path_values_single: "path_values [k] = children k"
proof (rule ext)
  fix v
  have "path_values [] = (\<lambda>z. [z])" by (rule ext) simp
  then show "path_values [k] v = children k v"
    by (simp add: concat_singletons)
qed

lemma children_object:
  "children k (JObj d) = (case map_of d k of Some x \<Rightarrow> [x] | None \<Rightarrow> [])"
  by (simp add: children_def field_of_def)

lemma children_name:
  "children ''name'' x = (case x of JArr ds \<Rightarrow> concat (map name_of ds) | _ \<Rightarrow> name_of x)"
  by (cases x) (simp_all add: children_def field_of_name)

lemma path_values_dataset_name:
  "path_values [''dataset'', ''name''] (JObj d) = name_values d"
proof -
  have "path_values [''dataset'', ''name''] (JObj d) =
      concat (map (children ''name'') (children ''dataset'' (JObj d)))"
    by (subst path_values.simps(2)) (simp only: path_values_single)
  also have "\<dots> = name_values d"
    by (simp add: children_object children_name name_values_def
        split: option.splits json.splits)
  finally show ?thesis .
qed

lemma same_value_string: "same_value x (JStr s) = (x = JStr s)"
  by (cases x) (auto simp: same_value_def)

lemma value_matches_string:
  "value_matches (JStr s) x = (x = JStr s \<or> (\<exists>ys. x = JArr ys \<and> JStr s \<in> set ys))"
  by (cases x) (auto simp: value_matches_def same_value_string list_ex_iff)

lemma equals_holds_string:
  "equals_holds (JStr s) found lacking =
     (\<exists>x\<in>set found. x = JStr s \<or> (\<exists>ys. x = JArr ys \<and> JStr s \<in> set ys))"
  by (simp add: equals_holds_def list_ex_iff value_matches_string)

lemma equals_holds_field:
  "equals_holds (JStr s) (path_values [k] (JObj d)) lacking = field_matches k (JStr s) d"
  by (cases "map_of d k")
    (auto simp: equals_holds_string path_values_single children_object field_matches_def
      simp del: path_values.simps split: json.splits)



lemma validate_doi_title:
  assumes "validate (JObj data)"
  shows "\<exists>s t. map_of data ''doi'' = Some (JStr s) \<and> map_of data ''title'' = Some (JStr t)"
proof -
  from assms have req: "has_key data ''doi''" "has_key data ''title''"
    by (simp_all add: validate_def study_schema_def object_of_def)
  then obtain x y where xy: "map_of data ''doi'' = Some x" "map_of data ''title'' = Some y"
    by (auto simp: has_key_def)
  have "valid (of_type [T_string]) x"
    using valid_propertyD [OF assms [unfolded validate_def study_schema_def object_of_def],
        of "''doi''" "of_type [T_string]" x] xy by simp
  moreover have "valid (of_type [T_string]) y"
    using valid_propertyD [OF assms [unfolded validate_def study_schema_def object_of_def],
        of "''title''" "of_type [T_string]" y] xy by simp
  ultimately show ?thesis using xy
    by (cases x; cases y) (simp_all add: of_type_def)
qed

lemma primary_key_validated:
  assumes "validate (JObj data)"
  shows "\<exists>k s. primary_key data = Some (k, JStr s) \<and>
           enhanced_query data =
             [(k, Equals (JStr s)), (''dataset.name'', dataset_clause (dataset_names data))] \<and>
           (k = ''doi'' \<or> k = ''title'') \<and> map_of data k = Some (JStr s)"
proof -
  from validate_doi_title[OF assms] obtain s t where
    st: "map_of data ''doi'' = Some (JStr s)" "map_of data ''title'' = Some (JStr t)" by blast
  show ?thesis
  proof (cases "s = []")
    case True
    with st show ?thesis
      by (simp add: primary_key_def enhanced_query_def has_key_def dict_get_def)
  next
    case False
    with st show ?thesis
      by (simp add: primary_key_def enhanced_query_def has_key_def dict_get_def)
  qed
qed


lemma select_enhanced: "select_mode ''2'' = JBool False"
  by (simp add: select_mode_def)

lemma find_SomeD: "find P xs = Some x \<Longrightarrow> x \<in> set xs \<and> P x"
  by (induction xs) (auto split: if_splits)





section \<open>Running the import twice\<close>

lemma dataset_names_array:
  "dataset_names data \<noteq> [] \<Longrightarrow> \<exists>ds. map_of data ''dataset'' = Some (JArr ds)"
  by (auto simp: dataset_names_def split: option.splits json.splits)

lemma name_values_subset_names:
  assumes "map_of data ''dataset'' = Some (JArr ds)"
  shows "set (name_values data) \<subseteq> set (dataset_names data)"
proof
  fix n
  assume "n \<in> set (name_values data)"
  with assms obtain x where x: "x \<in> set ds" "n \<in> set (name_of x)"
    by (auto simp: name_values_def)
  then obtain fs where fs: "x = JObj fs" "map_of fs ''name'' = Some n"
    by (cases x) (auto simp: name_of_def split: option.splits)
  have "n \<in> set (case x of JObj fs \<Rightarrow> [dict_get fs ''name'' (JStr [])] | _ \<Rightarrow> [])"
    using fs by (simp add: dict_get_def)
  with x(1) assms show "n \<in> set (dataset_names data)"
    by (auto simp: dataset_names_def)
qed

lemma equals_holds_member: "n \<in> set found \<Longrightarrow> equals_holds n found lacking"
  by (auto simp: equals_holds_def list_ex_iff value_matches_def same_value_def)

lemma dataset_clause_self:
  assumes "name_values data \<noteq> []"
  shows "cond_holds (dataset_clause (dataset_names data)) (name_values data) lacking"
proof (cases "dataset_names data = []")
  case True
  with assms show ?thesis by (simp add: dataset_clause_def)
next
  case False
  then obtain ds where "map_of data ''dataset'' = Some (JArr ds)"
    using dataset_names_array by blast
  then have sub: "set (name_values data) \<subseteq> set (dataset_names data)"
    by (rule name_values_subset_names)
  from assms obtain n where n: "n \<in> set (name_values data)"
    by (cases "name_values data") auto
  with sub have "n \<in> set (dataset_names data)" by blast
  moreover from n have "equals_holds n (name_values data) lacking"
    by (rule equals_holds_member)
  ultimately show ?thesis using False
    by (auto simp: dataset_clause_def list_ex_iff)
qed

lemma self_match:
  assumes "validate (JObj data)" and "name_values data \<noteq> []"
  shows "matches (enhanced_query data) (JObj data)"
proof -
  from primary_key_validated[OF assms(1)] obtain k s where
    ks: "enhanced_query data =
         [(k, Equals (JStr s)), (''dataset.name'', dataset_clause (dataset_names data))]"
      "k = ''doi'' \<or> k = ''title''" "map_of data k = Some (JStr s)"
    by blast
  have k: "split_dots k = [k]" using ks(2) by auto
  have "field_matches k (JStr s) data" using ks(3) by (simp add: field_matches_def)
  then show ?thesis
    unfolding ks(1) using dataset_clause_self[OF assms(2)]
    by (simp add: matches_def k equals_holds_field path_values_dataset_name
        del: path_values.simps path_lacking.simps)
qed

lemma enhanced_query_nonempty: "validate (JObj data) \<Longrightarrow> enhanced_query data \<noteq> []"
  using primary_key_validated by fastforce

lemma holds_id_mono: "holds_id ds x \<Longrightarrow> holds_id (ds @ new) x"
  by (auto simp: holds_id_def list_ex_iff)

text \<open>
  After the pass over a valid record with a dataset name, when no fault of the
  environment struck: the store holds a record that the candidate's filter finds
  (an older one, or the candidate itself), or it holds the candidate's own \<^verbatim>\<open>_id\<close>
  and has refused the insertion.
\<close>

lemma process_file_enhanced_hit:
  assumes "process_file (JBool False) f st = Inr st'"
    and "content f = Loaded data" and "validate data"
    and "name_values (dict_items data) \<noteq> []"
    and "find_fault f = None" and "insert_fault f = None"
  shows "(\<exists>(i, d)\<in>set (docs (coll st')). matches (enhanced_query (dict_items data)) (JObj d)) \<or>
         (\<exists>x. map_of (dict_items data) ''_id'' = Some x \<and> holds_id (docs (coll st')) x)"
proof -
  from validate_object[OF assms(3)] obtain d where d: "data = JObj d" "dict_items data = d"
    by (cases data) (auto simp: dict_items_def)
  have v: "validate (JObj d)" using assms(3) d by simp
  note ne = enhanced_query_nonempty[OF v]
  let ?P = "\<lambda>(i, x). matches (enhanced_query d) (JObj x)"
  have self: "matches (enhanced_query d) (JObj d)"
    using v assms(4) d by (simp add: self_match)
  show ?thesis
  proof (cases "find ?P (docs (coll st))")
    case None
    show ?thesis
    proof (cases "\<exists>x. map_of d ''_id'' = Some x \<and> holds_id (docs (coll st)) x")
      case True
      then obtain x where x: "map_of d ''_id'' = Some x" "holds_id (docs (coll st)) x" by blast
      with None assms(1,2,5,6) v ne d have "docs (coll st') = docs (coll st)"
        by (auto simp: process_file_def duplicate_check_def build_query_def find_one_def Let_def
            dict_items_def insert_one_def unexpected_error_def)
      with x d show ?thesis by auto
    next
      case False
      with None assms(1,2,5,6) v ne d
      have "docs (coll st') = docs (coll st) @ [(length (docs (coll st)), d)]"
        by (auto simp: process_file_def duplicate_check_def build_query_def find_one_def Let_def
            dict_items_def insert_one_def split: option.splits if_splits)
      with self d show ?thesis by auto
    qed
  next
    case (Some x)
    with assms(1,2,5) v ne d have "docs (coll st') = docs (coll st)"
      by (auto simp: process_file_def duplicate_check_def build_query_def find_one_def Let_def
          dict_items_def)
    with find_SomeD[OF Some] d show ?thesis by auto
  qed
qed

lemma process_file_grows:
  assumes "process_file skip f st = Inr st'"
  shows "\<exists>new. docs (coll st') = docs (coll st) @ new"
  using process_file_docs[OF assms] by auto

lemma process_file_opened:
  "process_file skip f st = Inr st' \<Longrightarrow> content f \<noteq> Open_fails e"
  by (auto simp: process_file_def)

lemma import_loop_enhanced_hits:
  assumes "import_loop (JBool False) walk st = Inr st'"
    and "f \<in> set walk" and "ends_with (filename f) ''.json''"
  shows "(\<forall>e. content f \<noteq> Open_fails e) \<and>
         (\<forall>data. content f = Loaded data \<and> validate data \<and>
            name_values (dict_items data) \<noteq> [] \<and> find_fault f = None \<and> insert_fault f = None \<longrightarrow>
            (\<exists>(i, d)\<in>set (docs (coll st')). matches (enhanced_query (dict_items data)) (JObj d)) \<or>
            (\<exists>x. map_of (dict_items data) ''_id'' = Some x \<and> holds_id (docs (coll st')) x))"
  using assms
proof (induction walk arbitrary: st)
  case Nil
  then show ?case by simp
next
  case (Cons g gs)
  show ?case
  proof (cases "ends_with (filename g) ''.json''")
    case False
    with Cons.prems have "import_loop (JBool False) gs st = Inr st'" "f \<in> set gs"
      by auto
    then show ?thesis using Cons.IH Cons.prems(3) by blast
  next
    case True
    with Cons.prems(1) obtain s where
      s: "process_file (JBool False) g st = Inr s" "import_loop (JBool False) gs s = Inr st'"
      by (auto split: sum.splits)
    show ?thesis
    proof (cases "f \<in> set gs")
      case True
      then show ?thesis using Cons.IH[OF s(2) _ Cons.prems(3)] by blast
    next
      case False
      with Cons.prems(2) have fg: "f = g" by simp
      from import_loop_docs[OF s(2)] obtain new where
        new: "docs (coll st') = docs (coll s) @ new" by blast
      have "(\<exists>(i, d)\<in>set (docs (coll st')). matches (enhanced_query (dict_items data)) (JObj d)) \<or>
            (\<exists>x. map_of (dict_items data) ''_id'' = Some x \<and> holds_id (docs (coll st')) x)"
        if "content f = Loaded data" "validate data" "name_values (dict_items data) \<noteq> []"
          "find_fault f = None" "insert_fault f = None" for data
        using process_file_enhanced_hit[OF s(1)[folded fg] that] new
        by (auto intro: holds_id_mono)
      moreover have "content f \<noteq> Open_fails e" for e
        using process_file_opened[OF s(1)] fg by simp
      ultimately show ?thesis by blast
    qed
  qed
qed

lemma process_file_enhanced_again:
  assumes "\<forall>e. content f \<noteq> Open_fails e"
    and "\<forall>data. content f = Loaded data \<and> validate data \<and> find_fault f = None \<and>
           insert_fault f = None \<longrightarrow>
           (\<exists>(i, d)\<in>set (docs (coll st)). matches (enhanced_query (dict_items data)) (JObj d)) \<or>
           (\<exists>x. map_of (dict_items data) ''_id'' = Some x \<and> holds_id (docs (coll st)) x)"
  shows "\<exists>s. process_file (JBool False) f st = Inr s \<and> docs (coll s) = docs (coll st) \<and>
           count_inserted s = count_inserted st"
proof (cases "content f")
  case (Open_fails e)
  with assms(1) show ?thesis by simp
next
  case (Decode_fails m l k)
  then show ?thesis by (simp add: process_file_def decode_error_def)
next
  case (Load_fails e)
  then show ?thesis by (simp add: process_file_def unexpected_error_def)
next
  case (Loaded data)
  show ?thesis
  proof (cases "validate data")
    case False
    with Loaded show ?thesis by (simp add: process_file_def)
  next
    case True
    from validate_object[OF True] obtain d where d: "data = JObj d" "dict_items data = d"
      by (cases data) (auto simp: dict_items_def)
    have v: "validate (JObj d)" using True d by simp
    note ne = enhanced_query_nonempty[OF v]
    let ?P = "\<lambda>(i, x). matches (enhanced_query d) (JObj x)"
    show ?thesis
    proof (cases "find_fault f")
      case (Some e)
      with Loaded v ne d show ?thesis
        by (simp add: process_file_def duplicate_check_def build_query_def find_one_def Let_def
            dict_items_def unexpected_error_def)
    next
      case None
      show ?thesis
      proof (cases "find ?P (docs (coll st))")
        case (Some x)
        with None Loaded v ne d show ?thesis
          by (simp add: process_file_def duplicate_check_def build_query_def find_one_def Let_def
              dict_items_def)
      next
        case nohit: None
        then have no: "\<not> (\<exists>x\<in>set (docs (coll st)). ?P x)"
          by (auto simp: find_None_iff)
        show ?thesis
        proof (cases "insert_fault f")
          case (Some e)
          with nohit None Loaded v ne d show ?thesis
            by (simp add: process_file_def duplicate_check_def build_query_def find_one_def
                Let_def dict_items_def insert_one_def unexpected_error_def)
        next
          case nofault: None
          with assms(2) Loaded True None d no obtain x where
            "map_of d ''_id'' = Some x" "holds_id (docs (coll st)) x"
            by auto
          with nofault nohit None Loaded v ne d show ?thesis
            by (simp add: process_file_def duplicate_check_def build_query_def find_one_def
                Let_def dict_items_def insert_one_def unexpected_error_def)
        qed
      qed
    qed
  qed
qed

lemma import_loop_enhanced_again:
  assumes "\<forall>f\<in>set walk. ends_with (filename f) ''.json'' \<longrightarrow>
      (\<forall>e. content f \<noteq> Open_fails e) \<and>
      (\<forall>data. content f = Loaded data \<and> validate data \<and> find_fault f = None \<and>
           insert_fault f = None \<longrightarrow>
           (\<exists>(i, d)\<in>set (docs (coll st)). matches (enhanced_query (dict_items data)) (JObj d)) \<or>
           (\<exists>x. map_of (dict_items data) ''_id'' = Some x \<and> holds_id (docs (coll st)) x))"
  shows "\<exists>s. import_loop (JBool False) walk st = Inr s \<and> docs (coll s) = docs (coll st) \<and>
           count_inserted s = count_inserted st"
  using assms
proof (induction walk arbitrary: st)
  case Nil
  then show ?case by simp
next
  case (Cons g gs)
  show ?case
  proof (cases "ends_with (filename g) ''.json''")
    case False
    then show ?thesis using Cons.IH[of st] Cons.prems by simp
  next
    case True
    with Cons.prems have
      "\<forall>e. content g \<noteq> Open_fails e"
      "\<forall>data. content g = Loaded data \<and> validate data \<and> find_fault g = None \<and>
           insert_fault g = None \<longrightarrow>
           (\<exists>(i, d)\<in>set (docs (coll st)). matches (enhanced_query (dict_items data)) (JObj d)) \<or>
           (\<exists>x. map_of (dict_items data) ''_id'' = Some x \<and> holds_id (docs (coll st)) x)"
      by simp_all
    from process_file_enhanced_again[OF this] obtain s where
      s: "process_file (JBool False) g st = Inr s" "docs (coll s) = docs (coll st)"
        "count_inserted s = count_inserted st" by blast
    have "\<exists>s'. import_loop (JBool False) gs s = Inr s' \<and> docs (coll s') = docs (coll s) \<and>
           count_inserted s' = count_inserted s"
      by (rule Cons.IH) (use Cons.prems s(2) in simp)
    with s True show ?thesis by auto
  qed
qed

text \<open>
  Claim C2, as the code has it. In Enhanced mode, when every valid record of the folder
  has a \<^verbatim>\<open>name\<close> under \<^verbatim>\<open>dataset\<close>, a second run over the same walk (the same
  files, and the store raising on the same files) against the store the first run left
  ends as well, inserts nothing and leaves the documents as they were.
\<close>

theorem enhanced_second_run_inserts_nothing:
  assumes "import_json_studies isdir ''2'' walk c = Inr (st1, written1)"
    and "\<forall>f\<in>set walk. \<forall>data. content f = Loaded data \<and> validate data \<longrightarrow>
           name_values (dict_items data) \<noteq> []"
  shows "\<exists>st2 written2. import_json_studies isdir ''2'' walk (coll st1) = Inr (st2, written2) \<and>
           count_inserted st2 = 0 \<and> docs (coll st2) = docs (coll st1)"
proof -
  from assms(1) have isdir: isdir
    and run1: "import_loop (JBool False) walk (initial_state c) = Inr st1"
    by (auto simp: import_json_studies_def select_enhanced split: if_splits sum.splits)
  have "\<forall>f\<in>set walk. ends_with (filename f) ''.json'' \<longrightarrow>
      (\<forall>e. content f \<noteq> Open_fails e) \<and>
      (\<forall>data. content f = Loaded data \<and> validate data \<and> find_fault f = None \<and>
           insert_fault f = None \<longrightarrow>
           (\<exists>(i, d)\<in>set (docs (coll (initial_state (coll st1)))).
               matches (enhanced_query (dict_items data)) (JObj d)) \<or>
           (\<exists>x. map_of (dict_items data) ''_id'' = Some x \<and>
               holds_id (docs (coll (initial_state (coll st1)))) x))"
    using import_loop_enhanced_hits[OF run1] assms(2)
    by (simp add: initial_state_def)
  from import_loop_enhanced_again[OF this] obtain s where
    "import_loop (JBool False) walk (initial_state (coll st1)) = Inr s"
    "docs (coll s) = docs (coll (initial_state (coll st1)))"
    "count_inserted s = count_inserted (initial_state (coll st1))"
    by blast
  then show ?thesis using isdir
    by (simp add: import_json_studies_def select_enhanced initial_state_def)
qed

theorem enhanced_second_run_inserts_nothing_witness:
  "\<exists>st1 written1 st2 written2.
     import_json_studies True ''2'' named_walk empty_collection = Inr (st1, written1) \<and>
     count_inserted st1 = 1 \<and>
     import_json_studies True ''2'' named_walk (coll st1) = Inr (st2, written2) \<and>
     count_inserted st2 = 0 \<and> docs (coll st2) = docs (coll st1)"
proof -
  have ran: "case import_json_studies True ''2'' named_walk empty_collection of
      Inl a \<Rightarrow> False
    | Inr (st, written) \<Rightarrow> count_inserted st = 1"
    by code_simp
  then obtain st1 written1 where
    r1: "import_json_studies True ''2'' named_walk empty_collection = Inr (st1, written1)"
      and n1: "count_inserted st1 = 1"
    by (cases "import_json_studies True ''2'' named_walk empty_collection") auto
  have nv: "name_values named_study \<noteq> []" by code_simp
  have iv: "\<not> validate invalid_study" by code_simp
  have named: "\<forall>f\<in>set named_walk. \<forall>data. content f = Loaded data \<and> validate data \<longrightarrow>
      name_values (dict_items data) \<noteq> []"
    using nv iv by (auto simp: named_walk_def file_of_def dict_items_def)
  from enhanced_second_run_inserts_nothing [OF r1 named] r1 n1 show ?thesis
    by blast
qed

text \<open>
  The claim as stated fails for a folder with one valid record that has no
  \<^verbatim>\<open>dataset\<close> field: the second run inserts it again, in Enhanced mode (the filter
  asks for \<^verbatim>\<open>dataset.name\<close> to exist) and in Basic mode (no lookup is made).
\<close>

theorem second_run_inserts_again_counterexample:
  "(case import_json_studies True ''2'' [file_of ''a.json'' (Loaded sample_study)] empty_collection of
      Inl a \<Rightarrow> False
    | Inr (st1, written1) \<Rightarrow>
        count_inserted st1 = 1 \<and>
        (case import_json_studies True ''2'' [file_of ''a.json'' (Loaded sample_study)] (coll st1) of
           Inl a \<Rightarrow> False
         | Inr (st2, written2) \<Rightarrow> count_inserted st2 = 1 \<and> count_skipped st2 = 0)) \<and>
   (case import_json_studies True ''3'' [file_of ''a.json'' (Loaded sample_study)] empty_collection of
      Inl a \<Rightarrow> False
    | Inr (st1, written1) \<Rightarrow>
        count_inserted st1 = 1 \<and>
        (case import_json_studies True ''3'' [file_of ''a.json'' (Loaded sample_study)] (coll st1) of
           Inl a \<Rightarrow> False
         | Inr (st2, written2) \<Rightarrow> count_inserted st2 = 1 \<and> count_skipped st2 = 0))"
  by code_simp

end
